theory Spec2Isabelle
  imports Main
begin

section \<open>Data model of the packer (packer.go)\<close>

text \<open>
  \<^verbatim>\<open>type FilterMode bool\<close> with the two constants \<^verbatim>\<open>Allow = true\<close> and
  \<^verbatim>\<open>Ignore = false\<close>: a two-valued type, kept here with the source's names.
\<close>

datatype FilterMode = Allow | Ignore

text \<open>
  \<^verbatim>\<open>api.Params\<close> is a Go map from parameter names to values of any type
  (\<^verbatim>\<open>interface{}\<close>). The values that matter to the packer are strings and
  everything that is not a string; \<open>VNil\<close> is Go's \<^verbatim>\<open>nil\<close> interface value.
  \<^verbatim>\<open>Handler\<close> is variadic in \<^verbatim>\<open>api.Params\<close>, hence a list of maps.
\<close>

datatype val = VString string | VInt int | VBool bool | VNil

type_synonym Params = "string \<rightharpoonup> val"

text \<open>
  The closure \<^verbatim>\<open>handler\<close> that \<^verbatim>\<open>Handler\<close> builds (lines 150--154) writes the
  caller's local \<^verbatim>\<open>resp\<close> and \<^verbatim>\<open>err\<close> and releases the caller's wait group.
  Each call of \<^verbatim>\<open>Handler\<close> has its own; the model names it by a number.
\<close>

type_synonym sink = nat

text \<open>
  \<^verbatim>\<open>request{method, params, handler}\<close> (line 157): the struct is built
  positionally from these three values.
\<close>

record request =
  req_method :: string
  req_params :: "Params list"
  req_handler :: sink

text \<open>
  Modelled from the spec: the type \<^verbatim>\<open>batch\<close> with \<^verbatim>\<open>make(batch)\<close>,
  \<^verbatim>\<open>appendRequest\<close> and \<^verbatim>\<open>len\<close> is declared outside packer.go. The spec
  describes it as an ordered sequence of pending calls in admission order, empty when
  fresh.
\<close>

type_synonym batch = "request list"

definition make_batch :: batch where
  "make_batch = []"

definition appendRequest :: "batch \<Rightarrow> request \<Rightarrow> batch" where
  "appendRequest b r = b @ [r]"

text \<open>
  Modelled from the spec: the type \<^verbatim>\<open>tokenPool\<close> with \<^verbatim>\<open>newTokenPool\<close>,
  \<^verbatim>\<open>Len\<close> and \<^verbatim>\<open>Append\<close> is declared outside packer.go. The spec describes
  a pool holding zero or more credentials, \<open>Len\<close> as their count and \<open>Append\<close> as an
  insertion that is idempotent.
\<close>

type_synonym tokenPool = "string list"

definition Len :: "tokenPool \<Rightarrow> nat" where
  "Len tp = length tp"

definition Append :: "string \<Rightarrow> tokenPool \<Rightarrow> tokenPool" where
  "Append token tp = (if token \<in> set tp then tp else tp @ [token])"

definition newTokenPool :: "string list \<Rightarrow> tokenPool" where
  "newTokenPool tokens = fold Append tokens []"

text \<open>
  Modelled from the spec: \<^verbatim>\<open>getTokenFromParams\<close> is declared outside packer.go.
  The spec says that it extracts the credential from the parameters; the parameter is
  the one the error messages of \<^verbatim>\<open>Handler\<close> name, \<^verbatim>\<open>access_token\<close>. The result
  is Go's pair of the value found and the flag that says whether one was found.
\<close>

fun getTokenFromParams :: "Params list \<Rightarrow> val \<times> bool" where
  "getTokenFromParams [] = (VNil, False)"
| "getTokenFromParams (q # qs) =
     (case q ''access_token'' of
        Some v \<Rightarrow> (v, True)
      | None \<Rightarrow> getTokenFromParams qs)"

text \<open>
  Go's checked type assertion \<^verbatim>\<open>token, ok := tokenIface.(string)\<close>: on a value
  that is not a string it yields the zero value \<^verbatim>\<open>""\<close> and \<^verbatim>\<open>false\<close>.
\<close>

fun assert_string :: "val \<Rightarrow> string \<times> bool" where
  "assert_string (VString s) = (s, True)"
| "assert_string (VInt _) = ('''', False)"
| "assert_string (VBool _) = ('''', False)"
| "assert_string VNil = ('''', False)"

text \<open>
  The struct \<^verbatim>\<open>Packer\<close>. Two fields have no counterpart in the record:
  \<^verbatim>\<open>mtx\<close>, since the model runs the critical sections one after the other, and
  \<^verbatim>\<open>vkHandler\<close>, the transport, whose calls appear as the outcome \<open>Forwarded\<close>
  below. Go's \<^verbatim>\<open>int\<close> is read as a mathematical integer: the packer only compares
  \<^verbatim>\<open>maxPackedRequests\<close>, it never computes with it.
\<close>

record Packer =
  maxPackedRequests :: int
  tokenPool :: tokenPool
  tokenLazyLoading :: bool
  filterMode :: FilterMode
  filterMethods :: "string set"
  debug :: bool
  batch :: batch

type_synonym Option = "Packer \<Rightarrow> Packer"

section \<open>Options and construction\<close>

definition MaxPackedRequests :: "int \<Rightarrow> Option" where
  "MaxPackedRequests mx =
     (let mx' = (if mx < 1 \<or> mx > 25 then 25 else mx)
      in (\<lambda>p. p\<lparr>maxPackedRequests := mx'\<rparr>))"

text \<open>The loop of \<^verbatim>\<open>Rules\<close> assigns the mode and inserts the method, once per method.\<close>

definition Rules :: "FilterMode \<Rightarrow> string list \<Rightarrow> Option" where
  "Rules mode methods =
     (\<lambda>p. fold (\<lambda>m q. q\<lparr>filterMode := mode, filterMethods := insert m (filterMethods q)\<rparr>)
              methods p)"

definition Debug :: Option where
  "Debug = (\<lambda>p. p\<lparr>debug := True\<rparr>)"

definition Tokens :: "string list \<Rightarrow> Option" where
  "Tokens tokens = (\<lambda>p. p\<lparr>tokenLazyLoading := False, tokenPool := newTokenPool tokens\<rparr>)"

definition New :: "Option list \<Rightarrow> Packer" where
  "New opts =
     fold (\<lambda>opt p. opt p) opts
       \<lparr>maxPackedRequests = 25,
        tokenPool = newTokenPool [],
        tokenLazyLoading = True,
        filterMode = Ignore,
        filterMethods = {},
        debug = False,
        batch = make_batch\<rparr>"

text \<open>
  The options that the package offers to its callers. The fields of \<^verbatim>\<open>Packer\<close>
  are not exported, so outside the package a packer is configured through these only.
\<close>

inductive_set package_options :: "Option set" where
  po_max: "MaxPackedRequests mx \<in> package_options"
| po_rules: "Rules mode methods \<in> package_options"
| po_debug: "Debug \<in> package_options"
| po_tokens: "Tokens tokens \<in> package_options"

section \<open>Handler and Send\<close>

text \<open>
  What a call of \<^verbatim>\<open>Handler\<close> does before it returns or blocks:
  \<^item> \<open>Forwarded m ps\<close>: it returns \<^verbatim>\<open>p.vkHandler(m, ps...)\<close>;
  \<^item> \<open>Failed msg\<close>: it returns the empty response and \<^verbatim>\<open>fmt.Errorf(msg)\<close>;
  \<^item> \<open>Waits h\<close>: the request is in the batch and the caller waits on its wait group
    until the closure \<open>h\<close> is called.
  Beside the outcome the model returns the packer after the call and the batches handed
  to \<^verbatim>\<open>go p.sendBatch(...)\<close> during the call. The debug output of line 116 is
  not modelled.
\<close>

datatype outcome = Forwarded string "Params list" | Failed string | Waits sink

text \<open>
  Lines 156--162, the section under the mutex, for the request that line 157 builds.
\<close>

definition admit :: "Packer \<Rightarrow> request \<Rightarrow> Packer \<times> batch list" where
  "admit p r =
     (let b = appendRequest (batch p) r
      in if int (length b) = maxPackedRequests p
         then (p\<lparr>batch := make_batch\<rparr>, [b])
         else (p\<lparr>batch := b\<rparr>, []))"

definition Handler :: "Packer \<Rightarrow> sink \<Rightarrow> string \<Rightarrow> Params list \<Rightarrow> outcome \<times> Packer \<times> batch list" where
  "Handler p h mth ps =
     (if mth = ''execute'' then (Forwarded mth ps, p, [])
      else
        let found = (mth \<in> filterMethods p) in
        if (filterMode p = Allow \<and> \<not> found) \<or> (filterMode p = Ignore \<and> found)
        then (Forwarded mth ps, p, [])
        else if tokenLazyLoading p then
          (let (tokenIface, ok) = getTokenFromParams ps in
           if \<not> ok \<and> Len (tokenPool p) = 0
           then (Failed ''packer: missing access_token param'', p, [])
           else
             let (token, ok') = assert_string tokenIface in
             if \<not> ok' \<and> Len (tokenPool p) = 0
             then (Failed ''packer: bad access_token type'', p, [])
             else (Waits h,
                   admit (p\<lparr>tokenPool := Append token (tokenPool p)\<rparr>)
                     \<lparr>req_method = mth, req_params = ps, req_handler = h\<rparr>))
        else (Waits h, admit p \<lparr>req_method = mth, req_params = ps, req_handler = h\<rparr>))"

definition Send :: "Packer \<Rightarrow> Packer \<times> batch list" where
  "Send p =
     (if length (batch p) > 0
      then (p\<lparr>batch := make_batch\<rparr>, [batch p])
      else (p, []))"

section \<open>Sequences of calls\<close>

text \<open>
  The batch is read and written under the mutex only, so the critical sections of
  concurrent calls of \<^verbatim>\<open>Handler\<close> and \<^verbatim>\<open>Send\<close> happen one after the other.
  A history of the packer is a list of events in that order; the model runs each call
  as a whole, up to the point where it returns or blocks, before the next one.
  \<open>run\<close> returns the packer after the history, the batches handed to
  \<^verbatim>\<open>sendBatch\<close> in the order of their detachment, and the requests admitted, in the
  order of their admission.
\<close>

datatype event = Call sink string "Params list" | Flush

fun step :: "Packer \<Rightarrow> event \<Rightarrow> Packer \<times> batch list \<times> request list" where
  "step p (Call h mth ps) =
     (let (out, p', ds) = Handler p h mth ps
      in (p', ds,
          case out of
            Waits _ \<Rightarrow> [\<lparr>req_method = mth, req_params = ps, req_handler = h\<rparr>]
          | Forwarded _ _ \<Rightarrow> []
          | Failed _ \<Rightarrow> []))"
| "step p Flush = (let (p', ds) = Send p in (p', ds, []))"

fun run :: "Packer \<Rightarrow> event list \<Rightarrow> Packer \<times> batch list \<times> request list" where
  "run p [] = (p, [], [])"
| "run p (e # es) =
     (let (p1, ds1, adm1) = step p e;
          (p2, ds2, adm2) = run p1 es
      in (p2, ds1 @ ds2, adm1 @ adm2))"

section \<open>Dispatch of a detached batch\<close>

text \<open>
  Modelled from the spec: \<^verbatim>\<open>sendBatch\<close> and the script encoder are declared outside
  packer.go. The spec (4.3, 4.4) says: the encoder lists the calls of the batch in the
  order of the batch; the dispatcher issues one call of the transport with the encoded
  script; when the transport fails, every sink of the batch gets that error; when it
  succeeds, the ordered result array is decoded, a length other than the batch's is a
  decoding error for every sink, and otherwise the i-th sink gets the i-th slot. The
  grammar of the script is left open by the spec, so the script is kept as the list of
  its calls; the choice of the credential is not part of this model. The result of
  \<open>sendBatch\<close> lists the sinks resolved, each with what it receives.
\<close>

type_synonym Response = string

datatype failure = TransportFailure string | DecodingFailure | SubCallFailure string

type_synonym slot = "failure + Response"

datatype reply = Rejected string | Decoded "slot list"

definition Encode :: "batch \<Rightarrow> (string \<times> Params list) list" where
  "Encode b = map (\<lambda>r. (req_method r, req_params r)) b"

definition sendBatch :: "((string \<times> Params list) list \<Rightarrow> reply) \<Rightarrow> batch \<Rightarrow> (sink \<times> slot) list" where
  "sendBatch transport b =
     (case transport (Encode b) of
        Rejected e \<Rightarrow> map (\<lambda>r. (req_handler r, Inl (TransportFailure e))) b
      | Decoded slots \<Rightarrow>
          if length slots \<noteq> length b
          then map (\<lambda>r. (req_handler r, Inl DecodingFailure)) b
          else map (\<lambda>(r, s). (req_handler r, s)) (zip b slots))"

section \<open>What one call does to the packer\<close>

lemma admit_log: "admit p r = (p', ds) \<Longrightarrow> concat ds @ batch p' = batch p @ [r]"
  by (auto simp: admit_def appendRequest_def make_batch_def Let_def split: if_splits)

text \<open>The three ways in which \<open>Handler\<close> ends, with what each leaves behind.\<close>

lemma Handler_cases:
  "Handler p h mth ps = (out, p', ds) \<Longrightarrow>
     (out = Forwarded mth ps \<and> p' = p \<and> ds = []) \<or>
     (\<exists>msg. out = Failed msg \<and> p' = p \<and> ds = [] \<and> tokenLazyLoading p \<and> Len (tokenPool p) = 0) \<or>
     (out = Waits h \<and> mth \<noteq> ''execute'' \<and>
        (\<exists>q. (q = p \<and> \<not> tokenLazyLoading p \<or>
               (\<exists>t. q = p\<lparr>tokenPool := Append t (tokenPool p)\<rparr> \<and> tokenLazyLoading p)) \<and>
          admit q \<lparr>req_method = mth, req_params = ps, req_handler = h\<rparr> = (p', ds)))"
  by (auto simp: Handler_def Let_def split: if_splits prod.splits)

lemma Handler_admit:
  assumes "Handler p h mth ps = (Waits h', p', ds)"
  obtains q where "batch q = batch p" "maxPackedRequests q = maxPackedRequests p"
    "tokenLazyLoading q = tokenLazyLoading p" "\<not> tokenLazyLoading p \<Longrightarrow> q = p"
    "admit q \<lparr>req_method = mth, req_params = ps, req_handler = h\<rparr> = (p', ds)"
proof -
  from Handler_cases [OF assms] obtain q where
    q: "q = p \<and> \<not> tokenLazyLoading p \<or> (\<exists>t. q = p\<lparr>tokenPool := Append t (tokenPool p)\<rparr> \<and> tokenLazyLoading p)"
    and a: "admit q \<lparr>req_method = mth, req_params = ps, req_handler = h\<rparr> = (p', ds)"
    by auto
  from q have "batch q = batch p" "maxPackedRequests q = maxPackedRequests p"
    "tokenLazyLoading q = tokenLazyLoading p" "\<not> tokenLazyLoading p \<Longrightarrow> q = p"
    by auto
  with a that show thesis by blast
qed

lemma Handler_log:
  "Handler p h mth ps = (out, p', ds) \<Longrightarrow>
   concat ds @ batch p' =
     batch p @ (case out of
                  Waits _ \<Rightarrow> [\<lparr>req_method = mth, req_params = ps, req_handler = h\<rparr>]
                | Forwarded _ _ \<Rightarrow> []
                | Failed _ \<Rightarrow> [])"
  by (drule Handler_cases) (auto dest!: admit_log)

lemma Send_log: "Send p = (p', ds) \<Longrightarrow> concat ds @ batch p' = batch p"
  by (auto simp: Send_def make_batch_def split: if_splits)

lemma step_log: "step p e = (p', ds, adm) \<Longrightarrow> concat ds @ batch p' = batch p @ adm"
  by (cases e) (auto split: prod.splits dest: Handler_log Send_log)

text \<open>
  The batches detached so far, followed by the shared batch, are the requests admitted so
  far, in the order of admission: a request is in one batch only, and batches cut the
  admission sequence into consecutive pieces.
\<close>

lemma run_log: "run p es = (p', ds, adm) \<Longrightarrow> concat ds @ batch p' = batch p @ adm"
proof (induction es arbitrary: p p' ds adm)
  case Nil
  then show ?case by simp
next
  case (Cons e es)
  obtain p1 ds1 adm1 where s: "step p e = (p1, ds1, adm1)"
    by (cases "step p e") auto
  obtain p2 ds2 adm2 where r: "run p1 es = (p2, ds2, adm2)"
    by (cases "run p1 es") auto
  from Cons.prems s r have eq: "p' = p2" "ds = ds1 @ ds2" "adm = adm1 @ adm2"
    by simp_all
  from step_log [OF s] Cons.IH [OF r] show ?case
    unfolding eq by (metis append.assoc concat_append)
qed

lemma step_adm: "step p e = (p', ds, adm) \<Longrightarrow> \<forall>r\<in>set adm. req_method r \<noteq> ''execute''"
  by (cases e) (auto split: prod.splits outcome.splits dest: Handler_cases)

lemma run_adm: "run p es = (p', ds, adm) \<Longrightarrow> \<forall>r\<in>set adm. req_method r \<noteq> ''execute''"
proof (induction es arbitrary: p p' ds adm)
  case Nil
  then show ?case by simp
next
  case (Cons e es)
  obtain p1 ds1 adm1 where s: "step p e = (p1, ds1, adm1)"
    by (cases "step p e") auto
  obtain p2 ds2 adm2 where r: "run p1 es = (p2, ds2, adm2)"
    by (cases "run p1 es") auto
  from Cons.prems s r have eq: "adm = adm1 @ adm2"
    by simp
  from step_adm [OF s] Cons.IH [OF r] show ?case
    unfolding eq by auto
qed

section \<open>What the options leave untouched\<close>

lemma Rules_fields:
  "batch (Rules mode ms p) = batch p \<and> maxPackedRequests (Rules mode ms p) = maxPackedRequests p
   \<and> tokenLazyLoading (Rules mode ms p) = tokenLazyLoading p \<and> tokenPool (Rules mode ms p) = tokenPool p"
  unfolding Rules_def by (induction ms arbitrary: p) simp_all

lemma Rules_mode:
  "filterMode (Rules mode (m # ms) p) = mode"
  unfolding Rules_def
proof (induction ms arbitrary: m p)
  case Nil
  show ?case by simp
next
  case (Cons a ms)
  from Cons [of a "p\<lparr>filterMode := mode, filterMethods := insert m (filterMethods p)\<rparr>"]
  show ?case by simp
qed

lemma package_option_batch:
  "opt \<in> package_options \<Longrightarrow> batch (opt p) = batch p"
  by (induction rule: package_options.induct)
     (simp_all add: MaxPackedRequests_def Let_def Debug_def Tokens_def Rules_fields)

lemma package_option_max:
  "opt \<in> package_options \<Longrightarrow> 1 \<le> maxPackedRequests p \<Longrightarrow> maxPackedRequests p \<le> 25 \<Longrightarrow>
   1 \<le> maxPackedRequests (opt p) \<and> maxPackedRequests (opt p) \<le> 25"
  by (induction rule: package_options.induct)
     (simp_all add: MaxPackedRequests_def Let_def Debug_def Tokens_def Rules_fields)

lemma package_option_lazy:
  "opt \<in> package_options \<Longrightarrow> \<not> tokenLazyLoading p \<Longrightarrow> \<not> tokenLazyLoading (opt p)"
  by (induction rule: package_options.induct)
     (simp_all add: MaxPackedRequests_def Let_def Debug_def Tokens_def Rules_fields)

lemma fold_options_inv:
  "\<forall>opt\<in>set opts. opt \<in> package_options \<Longrightarrow> batch p = [] \<Longrightarrow>
   1 \<le> maxPackedRequests p \<Longrightarrow> maxPackedRequests p \<le> 25 \<Longrightarrow>
   batch (fold (\<lambda>opt p. opt p) opts p) = [] \<and> 1 \<le> maxPackedRequests (fold (\<lambda>opt p. opt p) opts p)
   \<and> maxPackedRequests (fold (\<lambda>opt p. opt p) opts p) \<le> 25"
proof (induction opts arbitrary: p)
  case Nil
  then show ?case by simp
next
  case (Cons a opts)
  have a: "a \<in> package_options" using Cons.prems(1) by simp
  have "batch (a p) = []" using package_option_batch [OF a] Cons.prems(2) by simp
  moreover have "1 \<le> maxPackedRequests (a p) \<and> maxPackedRequests (a p) \<le> 25"
    using package_option_max [OF a] Cons.prems by simp
  ultimately show ?case using Cons.IH [of "a p"] Cons.prems(1) by simp
qed

lemma New_inv:
  "\<forall>opt\<in>set opts. opt \<in> package_options \<Longrightarrow>
   batch (New opts) = [] \<and> 1 \<le> maxPackedRequests (New opts) \<and> maxPackedRequests (New opts) \<le> 25"
  unfolding New_def by (rule fold_options_inv) (simp_all add: make_batch_def)

lemma fold_options_lazy:
  "\<forall>opt\<in>set opts. opt \<in> package_options \<Longrightarrow> \<not> tokenLazyLoading p \<or> Tokens ts \<in> set opts \<Longrightarrow>
   \<not> tokenLazyLoading (fold (\<lambda>opt p. opt p) opts p)"
proof (induction opts arbitrary: p)
  case Nil
  then show ?case by simp
next
  case (Cons a opts)
  have a: "a \<in> package_options" using Cons.prems(1) by simp
  have "\<not> tokenLazyLoading (a p) \<or> Tokens ts \<in> set opts"
  proof (cases "a = Tokens ts")
    case True
    then show ?thesis by (simp add: Tokens_def)
  next
    case False
    then show ?thesis using Cons.prems(2) package_option_lazy [OF a] by auto
  qed
  then show ?case using Cons.IH [of "a p"] Cons.prems(1) by simp
qed

section \<open>The shared batch stays below the maximum\<close>

lemma admit_size:
  assumes "admit p r = (p', ds)" and "int (length (batch p)) < maxPackedRequests p"
  shows "int (length (batch p')) < maxPackedRequests p' \<and> maxPackedRequests p' = maxPackedRequests p
         \<and> (\<forall>d\<in>set ds. 1 \<le> length d \<and> int (length d) \<le> maxPackedRequests p)"
  using assms by (auto simp: admit_def appendRequest_def make_batch_def Let_def split: if_splits)

lemma Handler_size:
  assumes "Handler p h mth ps = (out, p', ds)" and "int (length (batch p)) < maxPackedRequests p"
  shows "int (length (batch p')) < maxPackedRequests p' \<and> maxPackedRequests p' = maxPackedRequests p
         \<and> (\<forall>d\<in>set ds. 1 \<le> length d \<and> int (length d) \<le> maxPackedRequests p)"
proof (cases out)
  case (Waits h')
  from assms(1) [unfolded Waits] obtain q where q: "batch q = batch p" "maxPackedRequests q = maxPackedRequests p"
    and a: "admit q \<lparr>req_method = mth, req_params = ps, req_handler = h\<rparr> = (p', ds)"
    by (rule Handler_admit)
  from admit_size [OF a] q assms(2) show ?thesis by simp
next
  case (Forwarded m qs)
  with Handler_cases [OF assms(1)] assms(2) show ?thesis by auto
next
  case (Failed msg)
  with Handler_cases [OF assms(1)] assms(2) show ?thesis by auto
qed

lemma Send_size:
  assumes "Send p = (p', ds)" and "int (length (batch p)) < maxPackedRequests p"
  shows "int (length (batch p')) < maxPackedRequests p' \<and> maxPackedRequests p' = maxPackedRequests p
         \<and> (\<forall>d\<in>set ds. 1 \<le> length d \<and> int (length d) \<le> maxPackedRequests p)"
  using assms by (cases "batch p") (auto simp: Send_def make_batch_def split: if_splits)

lemma step_size:
  assumes "step p e = (p', ds, adm)" and "int (length (batch p)) < maxPackedRequests p"
  shows "int (length (batch p')) < maxPackedRequests p' \<and> maxPackedRequests p' = maxPackedRequests p
         \<and> (\<forall>d\<in>set ds. 1 \<le> length d \<and> int (length d) \<le> maxPackedRequests p)"
proof (cases e)
  case (Call h mth ps)
  obtain out where "Handler p h mth ps = (out, p', ds)"
    using assms(1) Call by (auto split: prod.splits)
  from Handler_size [OF this assms(2)] show ?thesis .
next
  case Flush
  then have "Send p = (p', ds)" using assms(1) by (auto split: prod.splits)
  from Send_size [OF this assms(2)] show ?thesis .
qed

lemma run_size:
  "run p es = (p', ds, adm) \<Longrightarrow> int (length (batch p)) < maxPackedRequests p \<Longrightarrow>
   int (length (batch p')) < maxPackedRequests p' \<and> maxPackedRequests p' = maxPackedRequests p
         \<and> (\<forall>d\<in>set ds. 1 \<le> length d \<and> int (length d) \<le> maxPackedRequests p)"
proof (induction es arbitrary: p p' ds adm)
  case Nil
  then show ?case by simp
next
  case (Cons e es)
  obtain p1 ds1 adm1 where s: "step p e = (p1, ds1, adm1)"
    by (cases "step p e") auto
  obtain p2 ds2 adm2 where r: "run p1 es = (p2, ds2, adm2)"
    by (cases "run p1 es") auto
  from Cons.prems(1) s r have eq: "p' = p2" "ds = ds1 @ ds2"
    by simp_all
  note a = step_size [OF s Cons.prems(2)]
  then have "int (length (batch p1)) < maxPackedRequests p1" by simp
  from Cons.IH [OF r this] a show ?case
    unfolding eq by auto
qed

lemma Handler_full:
  assumes "Handler p h mth ps = (Waits h', p', ds)"
  shows "if int (length (batch p)) + 1 = maxPackedRequests p
         then ds = [batch p @ [\<lparr>req_method = mth, req_params = ps, req_handler = h\<rparr>]] \<and> batch p' = []
         else ds = [] \<and> batch p' = batch p @ [\<lparr>req_method = mth, req_params = ps, req_handler = h\<rparr>]"
proof -
  from assms obtain q where q: "batch q = batch p" "maxPackedRequests q = maxPackedRequests p"
    and a: "admit q \<lparr>req_method = mth, req_params = ps, req_handler = h\<rparr> = (p', ds)"
    by (rule Handler_admit)
  from a q show ?thesis
    by (auto simp: admit_def appendRequest_def make_batch_def Let_def split: if_splits)
qed

section \<open>Sizes of dispatched batches\<close>

text \<open>
  Claim C1. Take a packer built by \<open>New\<close> from options of the package and run any
  history of calls of \<open>Handler\<close> and \<open>Send\<close> on it. Every batch handed to
  \<^verbatim>\<open>sendBatch\<close> holds at least one request and at most \<open>maxPackedRequests\<close>, the
  shared batch stays below \<open>maxPackedRequests\<close>, and an admission that brings the shared
  batch to exactly \<open>maxPackedRequests\<close> detaches that batch at once and leaves a fresh empty
  batch, while any other admission only appends.
\<close>

theorem dispatched_batch_size:
  assumes "\<forall>opt\<in>set opts. opt \<in> package_options"
    and "run (New opts) evs = (p, ds, adm)"
  shows "(\<forall>d\<in>set ds. 1 \<le> length d \<and> int (length d) \<le> maxPackedRequests p) \<and>
         int (length (batch p)) < maxPackedRequests p \<and>
         maxPackedRequests p = maxPackedRequests (New opts) \<and>
         (\<forall>h mth ps p' ds'. Handler p h mth ps = (Waits h, p', ds') \<longrightarrow>
            (if int (length (batch p)) + 1 = maxPackedRequests p
             then ds' = [batch p @ [\<lparr>req_method = mth, req_params = ps, req_handler = h\<rparr>]] \<and>
                  batch p' = make_batch
             else ds' = [] \<and>
                  batch p' = batch p @ [\<lparr>req_method = mth, req_params = ps, req_handler = h\<rparr>]))"
proof -
  from New_inv [OF assms(1)] have "int (length (batch (New opts))) < maxPackedRequests (New opts)"
    by simp
  from run_size [OF assms(2) this] show ?thesis
    using Handler_full by (simp add: make_batch_def)
qed

theorem dispatched_batch_size_witness:
  "MaxPackedRequests 2 \<in> package_options \<and> Tokens [''t''] \<in> package_options \<and>
   run (New [MaxPackedRequests 2, Tokens [''t'']])
       [Call 0 ''users.get'' [], Call 1 ''wall.get'' [], Call 2 ''users.get'' []] =
     ((New [MaxPackedRequests 2, Tokens [''t'']])
        \<lparr>batch := [\<lparr>req_method = ''users.get'', req_params = [], req_handler = 2\<rparr>]\<rparr>,
      [[\<lparr>req_method = ''users.get'', req_params = [], req_handler = 0\<rparr>,
        \<lparr>req_method = ''wall.get'', req_params = [], req_handler = 1\<rparr>]],
      [\<lparr>req_method = ''users.get'', req_params = [], req_handler = 0\<rparr>,
       \<lparr>req_method = ''wall.get'', req_params = [], req_handler = 1\<rparr>,
       \<lparr>req_method = ''users.get'', req_params = [], req_handler = 2\<rparr>]) \<and>
   maxPackedRequests (New [MaxPackedRequests 2, Tokens [''t'']]) = 2 \<and>
   int (length [\<lparr>req_method = ''users.get'', req_params = [], req_handler = 0\<rparr>,
                \<lparr>req_method = ''wall.get'', req_params = [], req_handler = 1\<rparr>]) \<le> 2 \<and>
   Handler ((New [MaxPackedRequests 2, Tokens [''t'']])
              \<lparr>batch := [\<lparr>req_method = ''users.get'', req_params = [], req_handler = 2\<rparr>]\<rparr>)
       3 ''wall.get'' [] =
     (Waits 3, New [MaxPackedRequests 2, Tokens [''t'']],
      [[\<lparr>req_method = ''users.get'', req_params = [], req_handler = 2\<rparr>,
        \<lparr>req_method = ''wall.get'', req_params = [], req_handler = 3\<rparr>]])"
proof -
  have o: "\<forall>opt\<in>set [MaxPackedRequests 2, Tokens [''t'']]. opt \<in> package_options"
    by (simp add: package_options.intros)
  have r: "run (New [MaxPackedRequests 2, Tokens [''t'']])
       [Call 0 ''users.get'' [], Call 1 ''wall.get'' [], Call 2 ''users.get'' []] =
     ((New [MaxPackedRequests 2, Tokens [''t'']])
        \<lparr>batch := [\<lparr>req_method = ''users.get'', req_params = [], req_handler = 2\<rparr>]\<rparr>,
      [[\<lparr>req_method = ''users.get'', req_params = [], req_handler = 0\<rparr>,
        \<lparr>req_method = ''wall.get'', req_params = [], req_handler = 1\<rparr>]],
      [\<lparr>req_method = ''users.get'', req_params = [], req_handler = 0\<rparr>,
       \<lparr>req_method = ''wall.get'', req_params = [], req_handler = 1\<rparr>,
       \<lparr>req_method = ''users.get'', req_params = [], req_handler = 2\<rparr>])"
    by (simp add: New_def MaxPackedRequests_def Tokens_def newTokenPool_def
        Append_def make_batch_def Handler_def admit_def appendRequest_def Let_def)
  have h: "Handler ((New [MaxPackedRequests 2, Tokens [''t'']])
              \<lparr>batch := [\<lparr>req_method = ''users.get'', req_params = [], req_handler = 2\<rparr>]\<rparr>)
       3 ''wall.get'' [] =
     (Waits 3, New [MaxPackedRequests 2, Tokens [''t'']],
      [[\<lparr>req_method = ''users.get'', req_params = [], req_handler = 2\<rparr>,
        \<lparr>req_method = ''wall.get'', req_params = [], req_handler = 3\<rparr>]])"
    by (simp add: New_def MaxPackedRequests_def Tokens_def newTokenPool_def
        Append_def make_batch_def Handler_def admit_def appendRequest_def Let_def)
  have m: "maxPackedRequests (New [MaxPackedRequests 2, Tokens [''t'']]) = 2"
    by (simp add: New_def MaxPackedRequests_def Tokens_def Let_def)
  from dispatched_batch_size [OF o r]
  have "int (length [\<lparr>req_method = ''users.get'', req_params = [], req_handler = 0\<rparr>,
                     \<lparr>req_method = ''wall.get'', req_params = [], req_handler = 1\<rparr>]) \<le> 2"
    using m by simp
  with o r h m show ?thesis by simp
qed

section \<open>Order inside a batch\<close>

lemma sendBatch_nth:
  "transport (Encode d) = Decoded slots \<Longrightarrow> length slots = length d \<Longrightarrow> i < length d \<Longrightarrow>
   Encode d ! i = (req_method (d ! i), req_params (d ! i)) \<and>
   sendBatch transport d ! i = (req_handler (d ! i), slots ! i)"
  by (simp add: sendBatch_def Encode_def)

text \<open>
  Claim C2. After any history, the batches detached so far followed by the shared batch
  are the admitted requests in the order of their admission, so every batch lists its
  requests in admission order. For every detached batch, the encoder lists the calls
  in that order, and when the transport answers with a decoded array as long as the
  batch, the i-th slot of the array goes to the sink of the i-th request of the batch.
\<close>

theorem batch_order:
  assumes "run p evs = (p', ds, adm)"
  shows "concat ds @ batch p' = batch p @ adm \<and>
         (\<forall>d\<in>set ds. \<forall>slots. transport (Encode d) = Decoded slots \<and> length slots = length d \<longrightarrow>
            (\<forall>i<length d. Encode d ! i = (req_method (d ! i), req_params (d ! i)) \<and>
                           sendBatch transport d ! i = (req_handler (d ! i), slots ! i)))"
  using run_log [OF assms] sendBatch_nth by blast

theorem batch_order_witness:
  "run (New [MaxPackedRequests 2, Tokens [''t'']]) [Call 0 ''A'' [], Call 1 ''B'' []] =
     (New [MaxPackedRequests 2, Tokens [''t'']],
      [[\<lparr>req_method = ''A'', req_params = [], req_handler = 0\<rparr>,
        \<lparr>req_method = ''B'', req_params = [], req_handler = 1\<rparr>]],
      [\<lparr>req_method = ''A'', req_params = [], req_handler = 0\<rparr>,
       \<lparr>req_method = ''B'', req_params = [], req_handler = 1\<rparr>]) \<and>
   Encode [\<lparr>req_method = ''A'', req_params = [], req_handler = 0\<rparr>,
           \<lparr>req_method = ''B'', req_params = [], req_handler = 1\<rparr>] = [(''A'', []), (''B'', [])] \<and>
   sendBatch (\<lambda>script. Decoded [Inr ''rA'', Inl (SubCallFailure ''eB'')])
     [\<lparr>req_method = ''A'', req_params = [], req_handler = 0\<rparr>,
      \<lparr>req_method = ''B'', req_params = [], req_handler = 1\<rparr>] =
     [(0, Inr ''rA''), (1, Inl (SubCallFailure ''eB''))]"
proof -
  let ?A = "\<lparr>req_method = ''A'', req_params = [], req_handler = 0\<rparr>"
  let ?B = "\<lparr>req_method = ''B'', req_params = [], req_handler = 1\<rparr>"
  let ?tr = "\<lambda>script :: (string \<times> Params list) list. Decoded [Inr ''rA'', Inl (SubCallFailure ''eB'')]"
  have r: "run (New [MaxPackedRequests 2, Tokens [''t'']]) [Call 0 ''A'' [], Call 1 ''B'' []] =
     (New [MaxPackedRequests 2, Tokens [''t'']], [[?A, ?B]], [?A, ?B])"
    by (simp add: New_def MaxPackedRequests_def Tokens_def newTokenPool_def
        Append_def make_batch_def Handler_def admit_def appendRequest_def Let_def)
  have e: "Encode [?A, ?B] = [(''A'', []), (''B'', [])]"
    by (simp add: Encode_def)
  from batch_order [OF r, of ?tr]
  have n: "\<forall>i<2. sendBatch ?tr [?A, ?B] ! i = (req_handler ([?A, ?B] ! i), [Inr ''rA'', Inl (SubCallFailure ''eB'')] ! i)"
    by simp
  have l: "length (sendBatch ?tr [?A, ?B]) = 2"
    by (simp add: sendBatch_def)
  have "sendBatch ?tr [?A, ?B] = [(0, Inr ''rA''), (1, Inl (SubCallFailure ''eB''))]"
  proof (rule nth_equalityI)
    show "length (sendBatch ?tr [?A, ?B]) = length [(0::nat, Inr ''rA'' :: slot), (1, Inl (SubCallFailure ''eB''))]"
      using l by simp
  next
    fix i assume "i < length (sendBatch ?tr [?A, ?B])"
    then have i: "i < 2" using l by simp
    then have "i = 0 \<or> i = 1" by auto
    then show "sendBatch ?tr [?A, ?B] ! i = [(0::nat, Inr ''rA'' :: slot), (1, Inl (SubCallFailure ''eB''))] ! i"
      using n i by auto
  qed
  with r e show ?thesis by simp
qed

section \<open>Credentials at admission\<close>

lemma getTokenFromParams_absent:
  "\<forall>q\<in>set ps. q ''access_token'' = None \<Longrightarrow> getTokenFromParams ps = (VNil, False)"
  by (induction ps) simp_all

text \<open>
  Claim C3. A call that passes the filter while lazy loading is on, whose parameters
  hold no \<open>access_token\<close>, on a packer whose pool is empty, ends at once with the
  error of line 132; the packer, its batch included, is as before the call, and nothing
  is dispatched.
\<close>

theorem missing_token_rejected:
  assumes "mth \<noteq> ''execute''"
    and "\<not> ((filterMode p = Allow \<and> mth \<notin> filterMethods p) \<or>
            (filterMode p = Ignore \<and> mth \<in> filterMethods p))"
    and "tokenLazyLoading p"
    and "\<forall>q\<in>set ps. q ''access_token'' = None"
    and "Len (tokenPool p) = 0"
  shows "Handler p h mth ps = (Failed ''packer: missing access_token param'', p, [])"
  using assms(1,2,3,5) getTokenFromParams_absent [OF assms(4)]
  by (simp add: Handler_def Let_def)

theorem missing_token_rejected_witness:
  "''utils.resolveScreenName'' \<noteq> ''execute'' \<and>
   filterMode (New []) = Ignore \<and> ''utils.resolveScreenName'' \<notin> filterMethods (New []) \<and>
   tokenLazyLoading (New []) \<and>
   [''screen_name'' \<mapsto> VString ''durov''] ''access_token'' = None \<and>
   Len (tokenPool (New [])) = 0 \<and>
   Handler (New []) 0 ''utils.resolveScreenName'' [[''screen_name'' \<mapsto> VString ''durov'']] =
     (Failed ''packer: missing access_token param'', New [], [])"
proof -
  have m: "''utils.resolveScreenName'' \<noteq> ''execute''"
    by simp
  have f: "filterMode (New []) = Ignore \<and> ''utils.resolveScreenName'' \<notin> filterMethods (New [])"
    by (simp add: New_def)
  then have f': "\<not> ((filterMode (New []) = Allow \<and> ''utils.resolveScreenName'' \<notin> filterMethods (New [])) \<or>
            (filterMode (New []) = Ignore \<and> ''utils.resolveScreenName'' \<in> filterMethods (New [])))"
    by simp
  have l: "tokenLazyLoading (New [])"
    by (simp add: New_def)
  have a: "[''screen_name'' \<mapsto> VString ''durov''] ''access_token'' = None"
    by simp
  then have a': "\<forall>q\<in>set [[''screen_name'' \<mapsto> VString ''durov'']]. q ''access_token'' = None"
    by simp
  have n: "Len (tokenPool (New [])) = 0"
    by (simp add: New_def newTokenPool_def Len_def)
  from missing_token_rejected [OF m f' l a' n, of 0] m f l a n show ?thesis
    by simp
qed

text \<open>
  With lazy loading on, an admitted call hands to \<open>Append\<close> what the type assertion of
  line 135 yields: the credential when the parameters hold one that is a string, and the
  empty string otherwise.
\<close>

lemma Handler_lazy_pool:
  assumes "tokenLazyLoading p" and "Handler p h mth ps = (Waits h', p', ds)"
  shows "tokenPool p' = Append (fst (assert_string (fst (getTokenFromParams ps)))) (tokenPool p)"
  using assms
  by (auto simp: Handler_def admit_def Let_def split: if_splits prod.splits)

text \<open>
  Claim C4 fails on the code. On the default packer a first call with the credential
  \<open>tok\<close> puts it into the pool; a second call without any credential is admitted,
  since the pool is no longer empty, and line 140 appends the empty string to the pool.
  A second call whose credential is a number and not a string does the same.
\<close>

theorem lazy_loading_appends_empty_token:
  "tokenPool (fst (run (New []) [Call 0 ''users.get'' [[''access_token'' \<mapsto> VString ''tok'']]]))
     = [''tok''] \<and>
   getTokenFromParams [] = (VNil, False) \<and>
   run (New []) [Call 0 ''users.get'' [[''access_token'' \<mapsto> VString ''tok'']],
                 Call 1 ''users.get'' []] =
     ((New [])\<lparr>tokenPool := [''tok'', ''''],
               batch := [\<lparr>req_method = ''users.get'',
                          req_params = [[''access_token'' \<mapsto> VString ''tok'']],
                          req_handler = 0\<rparr>,
                         \<lparr>req_method = ''users.get'', req_params = [], req_handler = 1\<rparr>]\<rparr>,
      [],
      [\<lparr>req_method = ''users.get'',
        req_params = [[''access_token'' \<mapsto> VString ''tok'']],
        req_handler = 0\<rparr>,
       \<lparr>req_method = ''users.get'', req_params = [], req_handler = 1\<rparr>]) \<and>
   tokenPool (fst (run (New []) [Call 0 ''users.get'' [[''access_token'' \<mapsto> VString ''tok'']],
                                 Call 1 ''users.get'' [[''access_token'' \<mapsto> VInt 5]]]))
     = [''tok'', '''']"
  by (simp add: New_def newTokenPool_def make_batch_def Handler_def admit_def appendRequest_def
      Len_def Append_def Let_def)

section \<open>The options\<close>

text \<open>
  Claim C5, as amended. \<open>MaxPackedRequests\<close> changes the field \<open>maxPackedRequests\<close> only.
  An argument below 1 or above 25 stores 25, an argument from 1 to 25 is stored as it is;
  so the stored maximum always lies between 1 and 25.
\<close>

theorem MaxPackedRequests_clamp:
  "MaxPackedRequests mx p = p\<lparr>maxPackedRequests := maxPackedRequests (MaxPackedRequests mx p)\<rparr> \<and>
   (mx < 1 \<longrightarrow> maxPackedRequests (MaxPackedRequests mx p) = 25) \<and>
   (25 < mx \<longrightarrow> maxPackedRequests (MaxPackedRequests mx p) = 25) \<and>
   (1 \<le> mx \<and> mx \<le> 25 \<longrightarrow> maxPackedRequests (MaxPackedRequests mx p) = mx) \<and>
   1 \<le> maxPackedRequests (MaxPackedRequests mx p) \<and> maxPackedRequests (MaxPackedRequests mx p) \<le> 25"
  by (simp add: MaxPackedRequests_def Let_def)

theorem MaxPackedRequests_clamp_witness:
  "(-3::int) < 1 \<and> maxPackedRequests (MaxPackedRequests (-3) (New [])) = 25 \<and>
   (25::int) < 30 \<and> maxPackedRequests (MaxPackedRequests 30 (New [])) = 25 \<and>
   (1::int) \<le> 7 \<and> (7::int) \<le> 25 \<and> maxPackedRequests (MaxPackedRequests 7 (New [])) = 7"
  using MaxPackedRequests_clamp [of "-3" "New []"] MaxPackedRequests_clamp [of 30 "New []"]
    MaxPackedRequests_clamp [of 7 "New []"]
  by simp

text \<open>The claim as it was written fails below 1: the argument 0 stores 25, not 1.\<close>

theorem MaxPackedRequests_counterexample:
  "(0::int) < 1 \<and> maxPackedRequests (MaxPackedRequests 0 (New [])) = 25 \<and>
   maxPackedRequests (MaxPackedRequests 0 (New [])) \<noteq> 1"
  by (simp add: MaxPackedRequests_def Let_def)

text \<open>
  Claim C9. \<open>Rules\<close> with no method leaves the packer as it is, whatever the mode: the
  mode is assigned inside the loop over the methods, so it is assigned only when there
  is a method. \<open>New\<close> with \<open>Rules Allow\<close> and no method is the default packer, in mode
  \<open>Ignore\<close> with an empty set. With at least one method the mode is the one given.
\<close>

theorem Rules_no_methods:
  "Rules mode [] p = p \<and> New [Rules Allow []] = New [] \<and>
   filterMode (New [Rules Allow []]) = Ignore \<and> filterMethods (New [Rules Allow []]) = {} \<and>
   filterMode (Rules mode (m # ms) p) = mode"
  using Rules_mode [of mode m ms p] by (simp add: Rules_def New_def)

section \<open>Calls that bypass the batch\<close>

text \<open>
  Claim C6, as amended. For every call whose method is not \<open>execute\<close>, \<open>Handler\<close>
  returns the call to the transport, leaving the packer as it was, exactly when the mode
  is \<open>Allow\<close> and the method is not in the set, or the mode is \<open>Ignore\<close> and the method
  is in the set; in every other case the call is not forwarded: it goes on to admission.
\<close>

theorem filter_bypass:
  assumes "mth \<noteq> ''execute''"
  shows "(Handler p h mth ps = (Forwarded mth ps, p, [])) =
           ((filterMode p = Allow \<and> mth \<notin> filterMethods p) \<or>
            (filterMode p = Ignore \<and> mth \<in> filterMethods p))
         \<and> (\<exists>m' ps'. fst (Handler p h mth ps) = Forwarded m' ps') =
           ((filterMode p = Allow \<and> mth \<notin> filterMethods p) \<or>
            (filterMode p = Ignore \<and> mth \<in> filterMethods p))"
  using assms by (auto simp: Handler_def Let_def split: prod.splits)

theorem filter_bypass_witness:
  "''wall.get'' \<noteq> ''execute'' \<and>
   Handler (New [Rules Allow [''users.get'']]) 0 ''wall.get'' [] =
     (Forwarded ''wall.get'' [], New [Rules Allow [''users.get'']], []) \<and>
   filterMode (New [Rules Allow [''users.get'']]) = Allow \<and>
   ''wall.get'' \<notin> filterMethods (New [Rules Allow [''users.get'']])"
proof -
  have m: "''wall.get'' \<noteq> ''execute''"
    by simp
  have f: "filterMode (New [Rules Allow [''users.get'']]) = Allow \<and>
           ''wall.get'' \<notin> filterMethods (New [Rules Allow [''users.get'']])"
    by (simp add: New_def Rules_def)
  from filter_bypass [OF m, of "New [Rules Allow [''users.get'']]" 0 "[]"] f
  have "Handler (New [Rules Allow [''users.get'']]) 0 ''wall.get'' [] =
     (Forwarded ''wall.get'' [], New [Rules Allow [''users.get'']], [])"
    by simp
  with m f show ?thesis by simp
qed

text \<open>
  The claim as it was written fails at the method \<open>execute\<close>: with the default filter
  (mode \<open>Ignore\<close>, empty set) the call is forwarded although neither condition holds.
\<close>

theorem filter_bypass_counterexample:
  "Handler (New []) 0 ''execute'' [] = (Forwarded ''execute'' [], New [], []) \<and>
   \<not> ((filterMode (New []) = Allow \<and> ''execute'' \<notin> filterMethods (New [])) \<or>
      (filterMode (New []) = Ignore \<and> ''execute'' \<in> filterMethods (New [])))"
  by (simp add: Handler_def New_def)

text \<open>
  Claim C7. A call of the method \<open>execute\<close> is returned to the transport with its method
  and parameters as they came, before the filter is looked at; the packer is left as it
  was and nothing is dispatched. Hence no history puts a request with the method
  \<open>execute\<close> into a batch, detached or shared, whatever the filter says.
\<close>

theorem execute_never_batched:
  "Handler p h ''execute'' ps = (Forwarded ''execute'' ps, p, []) \<and>
   ((\<forall>r\<in>set (batch p). req_method r \<noteq> ''execute'') \<longrightarrow> run p evs = (p', ds, adm) \<longrightarrow>
      (\<forall>r\<in>set (concat ds @ batch p'). req_method r \<noteq> ''execute''))"
proof (intro conjI impI)
  show "Handler p h ''execute'' ps = (Forwarded ''execute'' ps, p, [])"
    by (simp add: Handler_def)
next
  assume b: "\<forall>r\<in>set (batch p). req_method r \<noteq> ''execute''" and r: "run p evs = (p', ds, adm)"
  have "\<forall>r\<in>set (batch p @ adm). req_method r \<noteq> ''execute''"
    using b run_adm [OF r] by auto
  then show "\<forall>r\<in>set (concat ds @ batch p'). req_method r \<noteq> ''execute''"
    using run_log [OF r] by simp
qed

theorem execute_never_batched_witness:
  "Handler (New [Rules Allow [''execute'', ''users.get''], MaxPackedRequests 1, Tokens []]) 0 ''execute'' []
     = (Forwarded ''execute'' [],
        New [Rules Allow [''execute'', ''users.get''], MaxPackedRequests 1, Tokens []], []) \<and>
   batch (New [Rules Allow [''execute'', ''users.get''], MaxPackedRequests 1, Tokens []]) = [] \<and>
   run (New [Rules Allow [''execute'', ''users.get''], MaxPackedRequests 1, Tokens []])
          [Call 0 ''execute'' [], Call 1 ''users.get'' []] =
        (New [Rules Allow [''execute'', ''users.get''], MaxPackedRequests 1, Tokens []],
         [[\<lparr>req_method = ''users.get'', req_params = [], req_handler = 1\<rparr>]],
         [\<lparr>req_method = ''users.get'', req_params = [], req_handler = 1\<rparr>])"
proof -
  let ?P = "New [Rules Allow [''execute'', ''users.get''], MaxPackedRequests 1, Tokens []]"
  have b: "batch ?P = []"
    by (simp add: New_def Rules_def MaxPackedRequests_def Tokens_def make_batch_def Let_def)
  have r: "run ?P [Call 0 ''execute'' [], Call 1 ''users.get'' []] =
        (?P, [[\<lparr>req_method = ''users.get'', req_params = [], req_handler = 1\<rparr>]],
         [\<lparr>req_method = ''users.get'', req_params = [], req_handler = 1\<rparr>])"
    by (simp add: New_def Rules_def MaxPackedRequests_def Tokens_def newTokenPool_def make_batch_def
        Handler_def admit_def appendRequest_def Let_def)
  from execute_never_batched [of ?P 0 "[]" "[Call 0 ''execute'' [], Call 1 ''users.get'' []]" ?P
      "[[\<lparr>req_method = ''users.get'', req_params = [], req_handler = 1\<rparr>]]"
      "[\<lparr>req_method = ''users.get'', req_params = [], req_handler = 1\<rparr>]"]
  have "Handler ?P 0 ''execute'' [] = (Forwarded ''execute'' [], ?P, [])"
    by simp
  with b r show ?thesis by simp
qed

section \<open>Send\<close>

text \<open>
  Claim C8. \<open>Send\<close> on a packer whose batch is not empty hands that batch to
  \<^verbatim>\<open>sendBatch\<close> and replaces it by a fresh empty batch, changing nothing else; on a
  packer whose batch is empty it dispatches nothing and leaves the packer as it is.
\<close>

theorem Send_flush:
  "(batch p \<noteq> [] \<longrightarrow> Send p = (p\<lparr>batch := make_batch\<rparr>, [batch p]) \<and> batch (fst (Send p)) = []) \<and>
   (batch p = [] \<longrightarrow> Send p = (p, []))"
  by (simp add: Send_def make_batch_def)

theorem Send_flush_witness:
  "batch ((New [])\<lparr>batch := [\<lparr>req_method = ''users.get'', req_params = [], req_handler = 0\<rparr>]\<rparr>) \<noteq> [] \<and>
   Send ((New [])\<lparr>batch := [\<lparr>req_method = ''users.get'', req_params = [], req_handler = 0\<rparr>]\<rparr>) =
     (New [], [[\<lparr>req_method = ''users.get'', req_params = [], req_handler = 0\<rparr>]]) \<and>
   batch (New []) = [] \<and> Send (New []) = (New [], [])"
proof -
  have b: "batch (New []) = []"
    by (simp add: New_def make_batch_def)
  have e: "(New [])\<lparr>batch := [\<lparr>req_method = ''users.get'', req_params = [], req_handler = 0\<rparr>],
                    batch := make_batch\<rparr> = New []"
    by (simp add: New_def make_batch_def)
  from Send_flush [of "(New [])\<lparr>batch := [\<lparr>req_method = ''users.get'', req_params = [], req_handler = 0\<rparr>]\<rparr>"]
    Send_flush [of "New []"] b e
  show ?thesis by simp
qed

section \<open>Static credentials\<close>

lemma step_static:
  assumes "step p e = (p', ds, adm)" and "\<not> tokenLazyLoading p"
  shows "\<not> tokenLazyLoading p' \<and> tokenPool p' = tokenPool p"
proof (cases e)
  case (Call h mth ps)
  then obtain out where H: "Handler p h mth ps = (out, p', ds)"
    using assms(1) by (auto split: prod.splits)
  then show ?thesis using assms(2)
    by (auto simp: Handler_def admit_def Let_def split: if_splits)
next
  case Flush
  then show ?thesis using assms by (auto simp: Send_def split: if_splits)
qed

lemma run_static:
  "run p es = (p', ds, adm) \<Longrightarrow> \<not> tokenLazyLoading p \<Longrightarrow>
   \<not> tokenLazyLoading p' \<and> tokenPool p' = tokenPool p"
proof (induction es arbitrary: p p' ds adm)
  case Nil
  then show ?case by simp
next
  case (Cons e es)
  obtain p1 ds1 adm1 where s: "step p e = (p1, ds1, adm1)"
    by (cases "step p e") auto
  obtain p2 ds2 adm2 where r: "run p1 es = (p2, ds2, adm2)"
    by (cases "run p1 es") auto
  from Cons.prems(1) s r have eq: "p' = p2"
    by simp
  note a = step_static [OF s Cons.prems(2)]
  from Cons.IH [OF r] a show ?case
    unfolding eq by simp
qed

lemma Handler_static:
  "\<not> tokenLazyLoading p \<Longrightarrow>
   fst (Handler p h mth ps) \<noteq> Failed msg \<and> tokenPool (fst (snd (Handler p h mth ps))) = tokenPool p"
  by (simp add: Handler_def admit_def Let_def)

text \<open>
  Claim C10. The option \<open>Tokens\<close>, with any list of tokens and also with none, switches
  lazy loading off. In a packer built by \<open>New\<close> from options of the package with
  \<open>Tokens\<close> among them, after any history, \<open>Handler\<close> returns no credential error for
  any call and leaves the pool as \<open>New\<close> built it.
\<close>

theorem Tokens_disables_lazy_loading:
  assumes "\<forall>opt\<in>set opts. opt \<in> package_options"
    and "Tokens ts \<in> set opts"
    and "run (New opts) evs = (p, ds, adm)"
  shows "\<not> tokenLazyLoading (Tokens ts q) \<and>
         \<not> tokenLazyLoading p \<and> tokenPool p = tokenPool (New opts) \<and>
         (\<forall>h mth ps msg. fst (Handler p h mth ps) \<noteq> Failed msg) \<and>
         (\<forall>h mth ps. tokenPool (fst (snd (Handler p h mth ps))) = tokenPool p)"
proof -
  have "\<not> tokenLazyLoading (New opts)"
    unfolding New_def using assms(1,2) by (intro fold_options_lazy [where ts = ts]) simp_all
  from run_static [OF assms(3) this] show ?thesis
    using Handler_static by (simp add: Tokens_def)
qed

theorem Tokens_disables_lazy_loading_witness:
  "Tokens [] \<in> package_options \<and> Tokens [] \<in> set [Tokens []] \<and>
   run (New [Tokens []]) [Call 0 ''users.get'' []] =
     ((New [Tokens []])\<lparr>batch := [\<lparr>req_method = ''users.get'', req_params = [], req_handler = 0\<rparr>]\<rparr>,
      [], [\<lparr>req_method = ''users.get'', req_params = [], req_handler = 0\<rparr>]) \<and>
   \<not> tokenLazyLoading (New [Tokens []]) \<and> tokenPool (New [Tokens []]) = [] \<and>
   fst (Handler ((New [Tokens []])\<lparr>batch := [\<lparr>req_method = ''users.get'', req_params = [], req_handler = 0\<rparr>]\<rparr>)
       1 ''wall.get'' [[''access_token'' \<mapsto> VInt 5]]) = Waits 1 \<and>
   tokenPool (fst (snd (Handler ((New [Tokens []])\<lparr>batch := [\<lparr>req_method = ''users.get'', req_params = [], req_handler = 0\<rparr>]\<rparr>)
       1 ''wall.get'' [[''access_token'' \<mapsto> VInt 5]]))) = []"
proof -
  have o: "\<forall>opt\<in>set [Tokens []]. opt \<in> package_options"
    by (simp add: package_options.intros)
  have t: "Tokens [] \<in> set [Tokens []]"
    by simp
  have r: "run (New [Tokens []]) [Call 0 ''users.get'' []] =
     ((New [Tokens []])\<lparr>batch := [\<lparr>req_method = ''users.get'', req_params = [], req_handler = 0\<rparr>]\<rparr>,
      [], [\<lparr>req_method = ''users.get'', req_params = [], req_handler = 0\<rparr>])"
    by (simp add: New_def Tokens_def newTokenPool_def make_batch_def Handler_def admit_def
        appendRequest_def Let_def)
  have n: "\<not> tokenLazyLoading (New [Tokens []]) \<and> tokenPool (New [Tokens []]) = []"
    by (simp add: New_def Tokens_def newTokenPool_def)
  have h: "fst (Handler ((New [Tokens []])\<lparr>batch := [\<lparr>req_method = ''users.get'', req_params = [], req_handler = 0\<rparr>]\<rparr>)
       1 ''wall.get'' [[''access_token'' \<mapsto> VInt 5]]) = Waits 1"
    by (simp add: New_def Tokens_def newTokenPool_def make_batch_def Handler_def admit_def
        appendRequest_def Let_def)
  from Tokens_disables_lazy_loading [OF o t r]
  have "tokenPool (fst (snd (Handler ((New [Tokens []])\<lparr>batch := [\<lparr>req_method = ''users.get'', req_params = [], req_handler = 0\<rparr>]\<rparr>)
       1 ''wall.get'' [[''access_token'' \<mapsto> VInt 5]]))) = []"
    using n by simp
  with o t r n h show ?thesis by simp
qed

end
